theory Spec2Isabelle
  imports Main "HOL-Library.Word"
begin

chapter \<open>Context and unified output of GNU diff (context.c, diff.h)\<close>

text \<open>
  The development has two parts. The first part is the model: every function of
  context.c as a HOL function, with the global variables it reads passed as records and
  the output stream passed in and returned. The second part proves the properties.

  Conventions of the model.
  \<^item> \<open>lin\<close> (a signed machine integer wide enough for a line count) is \<open>int\<close>. Line
    numbers and counts are bounded by the size of the files held in memory, signed
    overflow is undefined in C, and find_hunk notes "Integer overflow can't happen, due
    to CONTEXT_LIM"; the one constant of the type that the code uses, \<open>LIN_MAX\<close>, is kept.
  \<^item> \<open>long int\<close>, in which the range printers do arithmetic on the numbers they are
    handed, is a 64-bit word read as two's complement.
  \<^item> \<open>struct change *\<close> is a \<open>change list\<close>: the chain that the pointer heads, in link
    order, with \<open>[]\<close> for the null pointer. The \<open>link\<close> field is the tail of the list.
  \<^item> \<open>FILE *outfile\<close> is the string of the bytes written so far.
  \<^item> Functions declared in diff.h and defined in other files (translate_range,
    analyze_hunk, begin_output, print_1_line, print_script), and the library calls
    re_search, localtime and nstrftime, are parameters of the functions that call them.
\<close>

section \<open>Part 1: the model\<close>

subsection \<open>Data (diff.h)\<close>

type_synonym lin = int

type_synonym long = "64 word"

definition LIN_MAX :: lin where
  "LIN_MAX = 2 ^ 63 - 1"

definition INT_MAX :: int where
  "INT_MAX = 2 ^ 31 - 1"

definition SIZE_MAX :: int where
  "SIZE_MAX = 2 ^ 64 - 1"

text \<open>enum changes: the enumerators in the order of diff.h, and their values.\<close>

datatype changes = UNCHANGED | OLD | NEW | CHANGED

fun changes_value :: "changes \<Rightarrow> nat" where
  "changes_value UNCHANGED = 0"
| "changes_value OLD = 1"
| "changes_value NEW = 2"
| "changes_value CHANGED = 3"

text \<open>\<open>! changes\<close>, \<open>changes & OLD\<close> and \<open>changes & NEW\<close> on the enumeration's values.\<close>

definition changes_is_zero :: "changes \<Rightarrow> bool" where
  "changes_is_zero c = (changes_value c = 0)"

definition changes_and_OLD :: "changes \<Rightarrow> bool" where
  "changes_and_OLD c = (changes_value c mod 2 \<noteq> 0)"

definition changes_and_NEW :: "changes \<Rightarrow> bool" where
  "changes_and_NEW c = ((changes_value c div 2) mod 2 \<noteq> 0)"

text \<open>struct change, without its link (the tail of the list that holds the record).\<close>

record change =
  inserted :: lin
  deleted :: lin
  line0 :: lin
  line1 :: lin
  ignore :: bool

text \<open>
  struct file_data, the fields that context.c reads. \<open>linbuf f i\<close> stands for the
  bytes that the pointer \<open>linbuf[i]\<close> addresses, from the first byte of line \<open>i\<close> through
  its newline; the pointer difference \<open>linbuf[i + 1] - linbuf[i]\<close> is their number.
\<close>

record file_data =
  st_mtime :: int
  st_mtime_nsec :: int
  linbuf :: "lin \<Rightarrow> string"
  valid_lines :: lin
  prefix_lines :: lin

text \<open>
  The option variables of diff.h that context.c reads. \<open>context_lines\<close> is the variable
  \<open>context\<close>; \<open>ignore_regexp_fastmap\<close> and \<open>function_regexp_fastmap\<close> say whether the
  \<open>fastmap\<close> pointer of the pattern buffer is non-null, which is how the code asks
  whether the pattern was given.
\<close>

record config =
  context_lines :: lin
  ignore_blank_lines :: bool
  ignore_regexp_fastmap :: bool
  function_regexp_fastmap :: bool
  initial_tab :: bool
  suppress_blank_empty :: bool
  file_label0 :: "string option"
  file_label1 :: "string option"
  time_format :: string

text \<open>The stream and the two static variables of context.c.\<close>

record emit_state =
  outfile :: string
  find_function_last_search :: lin
  find_function_last_match :: lin

text \<open>How a run of the program can stop short: \<open>abort ()\<close>, or a read through a null
  pointer or past the end of a string.\<close>

datatype failure = Abort | Bad_read

subsection \<open>Bytes and printf conversions\<close>

definition newline :: char where
  "newline = CHR 0x0A"

definition c_isspace :: "char \<Rightarrow> bool" where
  "c_isspace c = (c = CHR 0x20 \<or> c = CHR 0x09 \<or> c = CHR 0x0A \<or> c = CHR 0x0B
     \<or> c = CHR 0x0C \<or> c = CHR 0x0D)"

definition digit_char :: "nat \<Rightarrow> char" where
  "digit_char d = ''0123456789'' ! d"

fun decimal :: "nat \<Rightarrow> string" where
  "decimal n = (if n < 10 then [digit_char n] else decimal (n div 10) @ [digit_char (n mod 10)])"

declare decimal.simps [simp del]

text \<open>\<open>%ld\<close> (and \<open>%jd\<close>, \<open>%ju\<close>, which print a number the same way).\<close>

definition fmt_ld :: "int \<Rightarrow> string" where
  "fmt_ld i = (if i < 0 then CHR ''-'' # decimal (nat (- i)) else decimal (nat i))"


text \<open>Reading a string of digits back, to say what "in decimal" means.\<close>

definition digit_value :: "char \<Rightarrow> nat" where
  "digit_value c = of_char c - 48"

definition is_digit :: "char \<Rightarrow> bool" where
  "is_digit c = (48 \<le> (of_char c :: nat) \<and> (of_char c :: nat) \<le> 57)"

definition read_decimal :: "string \<Rightarrow> nat" where
  "read_decimal s = foldl (\<lambda>a c. 10 * a + digit_value c) 0 s"

subsection \<open>print_context_label, print_context_header\<close>









subsection \<open>print_context_number_range, print_unidiff_number_range\<close>

type_synonym translate_range_fn = "file_data \<Rightarrow> lin \<Rightarrow> lin \<Rightarrow> long \<times> long"

definition print_context_number_range ::
  "translate_range_fn \<Rightarrow> file_data \<Rightarrow> lin \<Rightarrow> lin \<Rightarrow> string \<Rightarrow> string" where
  "print_context_number_range translate_range file a b out =
     (case translate_range file a b of
        (trans_a, trans_b) \<Rightarrow>
          if sint trans_b \<le> sint trans_a
          then out @ fmt_ld (sint trans_b)
          else out @ fmt_ld (sint trans_a) @ '','' @ fmt_ld (sint trans_b))"

definition print_unidiff_number_range ::
  "translate_range_fn \<Rightarrow> file_data \<Rightarrow> lin \<Rightarrow> lin \<Rightarrow> string \<Rightarrow> string" where
  "print_unidiff_number_range translate_range file a b out =
     (case translate_range file a b of
        (trans_a, trans_b) \<Rightarrow>
          if sint trans_b \<le> sint trans_a
          then (if sint trans_b < sint trans_a
                then out @ fmt_ld (sint trans_b) @ '',0''
                else out @ fmt_ld (sint trans_b))
          else out @ fmt_ld (sint trans_a) @ '','' @ fmt_ld (sint (trans_b - trans_a + 1)))"

subsection \<open>print_context_function\<close>

text \<open>
  \<open>function\<close> is the bytes at the pointer. \<open>function[i]\<close>: a read past the end of the bytes
  at hand has no value. The counters \<open>i\<close> and \<open>j\<close>, of type \<open>int\<close>, are natural numbers
  here: they stay below the length of the line plus 40.
\<close>

definition byte_at :: "string \<Rightarrow> nat \<Rightarrow> char option" where
  "byte_at s i = (if i < length s then Some (s ! i) else None)"

text \<open>The first loop: \<open>for (i = 0; c_isspace (function[i]) && function[i] != '\n'; i++)\<close>.\<close>

function skip_leading :: "string \<Rightarrow> nat \<Rightarrow> nat option" where
  "skip_leading f i =
     (case byte_at f i of
        None \<Rightarrow> None
      | Some c \<Rightarrow> if c_isspace c \<and> c \<noteq> newline then skip_leading f (i + 1) else Some i)"
  by pat_completeness auto
termination
  by (relation "measure (\<lambda>(f, i). length f - i)") (auto simp: byte_at_def split: if_splits)

declare skip_leading.simps [simp del]

text \<open>The second loop: \<open>for (j = i; j < i + 40 && function[j] != '\n'; j++)\<close>.\<close>

function scan_label :: "string \<Rightarrow> nat \<Rightarrow> nat \<Rightarrow> nat option" where
  "scan_label f i j =
     (if j < i + 40
      then (case byte_at f j of
              None \<Rightarrow> None
            | Some c \<Rightarrow> if c \<noteq> newline then scan_label f i (j + 1) else Some j)
      else Some j)"
  by pat_completeness auto
termination
  by (relation "measure (\<lambda>(f, i, j). i + 40 - j)") auto

declare scan_label.simps [simp del]

text \<open>The third loop: \<open>while (i < j && c_isspace (function[j - 1])) j--\<close>.\<close>

function trim_label :: "string \<Rightarrow> nat \<Rightarrow> nat \<Rightarrow> nat option" where
  "trim_label f i j =
     (if i < j
      then (case byte_at f (j - 1) of
              None \<Rightarrow> None
            | Some c \<Rightarrow> if c_isspace c then trim_label f i (j - 1) else Some j)
      else Some j)"
  by pat_completeness auto
termination
  by (relation "measure (\<lambda>(f, i, j). j)") auto

declare trim_label.simps [simp del]

text \<open>\<open>putc (' ', out)\<close>, the three loops, and \<open>fwrite (function + i, 1, j - i, out)\<close>.\<close>

definition print_context_function :: "string \<Rightarrow> string \<Rightarrow> failure + string" where
  "print_context_function out function =
     (let out1 = out @ '' '' in
      case skip_leading function 0 of
        None \<Rightarrow> Inl Bad_read
      | Some i \<Rightarrow>
          (case scan_label function i i of
             None \<Rightarrow> Inl Bad_read
           | Some j \<Rightarrow>
               (case trim_label function i j of
                  None \<Rightarrow> Inl Bad_read
                | Some j' \<Rightarrow> Inr (out1 @ take (j' - i) (drop i function)))))"

subsection \<open>The functions that context.c calls and does not define\<close>

text \<open>
  \<^item> \<open>translate_range\<close> gives the two real line numbers for a file and two internal ones.
  \<^item> \<open>analyze_hunk\<close> gives the kind of a hunk and the four numbers it stores through its
    pointer arguments: first0, last0, first1, last1.
  \<^item> \<open>begin_output\<close> and \<open>print_1_line\<close> write to the stream. The arguments of
    \<open>print_1_line\<close> are the prefix (null is \<open>None\<close>) and the address of an entry of
    \<open>files[0].linbuf\<close> (\<open>False\<close>) or \<open>files[1].linbuf\<close> (\<open>True\<close>).
  \<^item> \<open>print_script\<close> takes the script, the function that finds the end of a hunk and the
    function that prints one.
  \<^item> \<open>re_search\<close> is the search for \<open>function_regexp\<close> in the first \<open>len\<close> bytes at
    \<open>line\<close>; its result is negative when nothing matches.
\<close>

record externals =
  translate_range :: translate_range_fn
  analyze_hunk :: "change list \<Rightarrow> changes \<times> lin \<times> lin \<times> lin \<times> lin"
  begin_output :: "string \<Rightarrow> string"
  print_1_line :: "string option \<Rightarrow> bool \<Rightarrow> lin \<Rightarrow> string \<Rightarrow> string"
  print_script ::
    "change list \<Rightarrow> (change list \<Rightarrow> failure + change list) \<Rightarrow>
     (change list \<Rightarrow> emit_state \<Rightarrow> failure + emit_state) \<Rightarrow> emit_state \<Rightarrow> failure + emit_state"
  re_search :: "string \<Rightarrow> int \<Rightarrow> int"

subsection \<open>find_function\<close>

text \<open>
  The loop \<open>while (last <= --i)\<close>: the index of the line that matched, or \<open>None\<close> when the
  loop ends without a match. The variable \<open>last\<close> is \<open>previous\<close> here, and \<open>linelen\<close> is
  a \<open>size_t\<close>.
\<close>

function find_function_scan ::
  "(string \<Rightarrow> int \<Rightarrow> int) \<Rightarrow> (lin \<Rightarrow> string) \<Rightarrow> lin \<Rightarrow> lin \<Rightarrow> lin option" where
  "find_function_scan search lb previous i =
     (if previous \<le> i - 1
      then (let line = lb (i - 1);
                linelen = (int (length line) - 1) mod (SIZE_MAX + 1);
                len = min linelen INT_MAX
            in if 0 \<le> search line len then Some (i - 1)
               else find_function_scan search lb previous (i - 1))
      else None)"
  by pat_completeness auto
termination
  by (relation "measure (\<lambda>(search, lb, previous, i). nat (i - previous))") auto

declare find_function_scan.simps [simp del]

definition find_function ::
  "externals \<Rightarrow> (lin \<Rightarrow> string) \<Rightarrow> lin \<Rightarrow> emit_state \<Rightarrow> string option \<times> emit_state" where
  "find_function ext lb linenum st =
     (let i = linenum;
          previous = find_function_last_search st;
          st1 = st\<lparr>find_function_last_search := i\<rparr>
      in case find_function_scan (re_search ext) lb previous i of
           Some m \<Rightarrow> (Some (lb m), st1\<lparr>find_function_last_match := m\<rparr>)
         | None \<Rightarrow>
             if find_function_last_match st1 \<noteq> LIN_MAX
             then (Some (lb (find_function_last_match st1)), st1)
             else (None, st1))"

subsection \<open>find_hunk\<close>

text \<open>
  One turn of the do-while loop for each equation: \<open>start # link\<close> is the chain at
  \<open>start\<close>, and the result is the chain at \<open>prev\<close>.
\<close>

fun find_hunk :: "config \<Rightarrow> change list \<Rightarrow> failure + change list" where
  "find_hunk cfg [] = Inl Bad_read"
| "find_hunk cfg (start # link) =
     (let ignorable_threshold = context_lines cfg;
          non_ignorable_threshold = 2 * context_lines cfg + 1;
          top0 = line0 start + deleted start;
          top1 = line1 start + inserted start;
          prev = start # link
      in case link of
           [] \<Rightarrow> Inr prev
         | nxt # _ \<Rightarrow>
             (let thresh = (if ignore nxt then ignorable_threshold
                            else non_ignorable_threshold)
              in if line0 nxt - top0 \<noteq> line1 nxt - top1 then Inl Abort
                 else if line0 nxt - top0 < thresh then find_hunk cfg link
                 else Inr prev))"

subsection \<open>mark_ignorable, print_context_script\<close>

text \<open>
  One turn of the loop of mark_ignorable: \<open>[script]\<close> is the change with its link set to
  null, which is what analyze_hunk is handed; consing the marked change onto the rest
  puts the link back.
\<close>

fun mark_ignorable :: "externals \<Rightarrow> change list \<Rightarrow> change list" where
  "mark_ignorable ext [] = []"
| "mark_ignorable ext (script # next) =
     (case analyze_hunk ext [script] of
        (kind, first0, last0, first1, last1) \<Rightarrow>
          script\<lparr>ignore := changes_is_zero kind\<rparr> # mark_ignorable ext next)"

text \<open>\<open>for (e = script; e; e = e->link) e->ignore = false;\<close>\<close>

fun clear_ignore :: "change list \<Rightarrow> change list" where
  "clear_ignore [] = []"
| "clear_ignore (e # link) = e\<lparr>ignore := False\<rparr> # clear_ignore link"

subsection \<open>pr_context_hunk\<close>

text \<open>
  "Include a context's width before and after": the statements that both hunk printers
  run on the four numbers of analyze_hunk. The result is (first0, last0, first1, last1).
\<close>

definition include_context ::
  "config \<Rightarrow> file_data \<times> file_data \<Rightarrow> lin \<times> lin \<times> lin \<times> lin \<Rightarrow> lin \<times> lin \<times> lin \<times> lin" where
  "include_context cfg files w =
     (case w of
        (first0, last0, first1, last1) \<Rightarrow>
          (let i = - prefix_lines (fst files);
               first0' = max (first0 - context_lines cfg) i;
               first1' = max (first1 - context_lines cfg) i;
               last0' = (if last0 < valid_lines (fst files) - context_lines cfg
                         then last0 + context_lines cfg
                         else valid_lines (fst files) - 1);
               last1' = (if last1 < valid_lines (snd files) - context_lines cfg
                         then last1 + context_lines cfg
                         else valid_lines (snd files) - 1)
           in (first0', last0', first1', last1')))"

text \<open>"If desired, find the preceding function definition line in file 0."\<close>

definition find_function_if_desired ::
  "externals \<Rightarrow> config \<Rightarrow> file_data \<times> file_data \<Rightarrow> lin \<Rightarrow> emit_state \<Rightarrow>
   string option \<times> emit_state" where
  "find_function_if_desired ext cfg files first0 st =
     (if function_regexp_fastmap cfg then find_function ext (linbuf (fst files)) first0 st
      else (None, st))"

text \<open>\<open>while (next && next->line0 + next->deleted <= i) next = next->link;\<close>\<close>

fun skip_old :: "change list \<Rightarrow> lin \<Rightarrow> change list" where
  "skip_old [] i = []"
| "skip_old (n # link) i = (if line0 n + deleted n \<le> i then skip_old link i else n # link)"

text \<open>\<open>while (next && next->line1 + next->inserted <= i) next = next->link;\<close>\<close>

fun skip_new :: "change list \<Rightarrow> lin \<Rightarrow> change list" where
  "skip_new [] i = []"
| "skip_new (n # link) i = (if line1 n + inserted n \<le> i then skip_new link i else n # link)"

text \<open>The loop \<open>for (i = first0; i <= last0; i++)\<close> under \<open>if (changes & OLD)\<close>.\<close>

function context_old_lines ::
  "externals \<Rightarrow> change list \<Rightarrow> lin \<Rightarrow> lin \<Rightarrow> string \<Rightarrow> string" where
  "context_old_lines ext next i last0 out =
     (if i \<le> last0
      then (let next1 = skip_old next i;
                prefix = (if next1 \<noteq> [] \<and> line0 (hd next1) \<le> i
                          then (if 0 < inserted (hd next1) then ''!'' else ''-'')
                          else '' '')
            in context_old_lines ext next1 (i + 1) last0
                 (print_1_line ext (Some prefix) False i out))
      else out)"
  by pat_completeness auto
termination
  by (relation "measure (\<lambda>(ext, next, i, last0, out). nat (last0 + 1 - i))") auto

declare context_old_lines.simps [simp del]

text \<open>The loop \<open>for (i = first1; i <= last1; i++)\<close> under \<open>if (changes & NEW)\<close>.\<close>

function context_new_lines ::
  "externals \<Rightarrow> change list \<Rightarrow> lin \<Rightarrow> lin \<Rightarrow> string \<Rightarrow> string" where
  "context_new_lines ext next i last1 out =
     (if i \<le> last1
      then (let next1 = skip_new next i;
                prefix = (if next1 \<noteq> [] \<and> line1 (hd next1) \<le> i
                          then (if 0 < deleted (hd next1) then ''!'' else ''+'')
                          else '' '')
            in context_new_lines ext next1 (i + 1) last1
                 (print_1_line ext (Some prefix) True i out))
      else out)"
  by pat_completeness auto
termination
  by (relation "measure (\<lambda>(ext, next, i, last1, out). nat (last1 + 1 - i))") auto

declare context_new_lines.simps [simp del]

text \<open>\<open>if (function) print_context_function (out, function);\<close>\<close>

definition print_function_if_found :: "string option \<Rightarrow> string \<Rightarrow> failure + string" where
  "print_function_if_found function out =
     (case function of None \<Rightarrow> Inr out | Some f \<Rightarrow> print_context_function out f)"

definition pr_context_hunk ::
  "externals \<Rightarrow> config \<Rightarrow> file_data \<times> file_data \<Rightarrow> change list \<Rightarrow> emit_state \<Rightarrow>
   failure + emit_state" where
  "pr_context_hunk ext cfg files hunk st =
     (case analyze_hunk ext hunk of
        (changes, w) \<Rightarrow>
          if changes_is_zero changes then Inr st
          else
            (case include_context cfg files w of
               (first0, last0, first1, last1) \<Rightarrow>
                 (case find_function_if_desired ext cfg files first0 st of
                    (function, st1) \<Rightarrow>
                      (let out0 = begin_output ext (outfile st1);
                           out1 = out0 @ ''***************''
                       in case print_function_if_found function out1 of
                            Inl e \<Rightarrow> Inl e
                          | Inr out2 \<Rightarrow>
                              (let out3 = out2 @ [newline] @ ''*** '';
                                   out4 = print_context_number_range (translate_range ext)
                                            (fst files) first0 last0 out3;
                                   out5 = out4 @ '' ****'' @ [newline];
                                   out6 = (if changes_and_OLD changes
                                           then context_old_lines ext hunk first0 last0 out5
                                           else out5);
                                   out7 = out6 @ ''--- '';
                                   out8 = print_context_number_range (translate_range ext)
                                            (snd files) first1 last1 out7;
                                   out9 = out8 @ '' ----'' @ [newline];
                                   out10 = (if changes_and_NEW changes
                                            then context_new_lines ext hunk first1 last1 out9
                                            else out9)
                               in Inr (st1\<lparr>outfile := out10\<rparr>))))))"

subsection \<open>pr_unidiff_hunk\<close>

text \<open>\<open>**line == '\n'\<close>: the first byte of the line is a newline.\<close>

definition starts_with_newline :: "string \<Rightarrow> bool" where
  "starts_with_newline line = (case line of [] \<Rightarrow> False | c # _ \<Rightarrow> c = newline)"

text \<open>The branch of the loop that prints a line of context from file 0.\<close>

definition unidiff_context_line ::
  "externals \<Rightarrow> config \<Rightarrow> file_data \<times> file_data \<Rightarrow> lin \<Rightarrow> string \<Rightarrow> string" where
  "unidiff_context_line ext cfg files i out =
     (let line = linbuf (fst files) i;
          out1 = (if \<not> (suppress_blank_empty cfg \<and> starts_with_newline line)
                  then out @ [if initial_tab cfg then CHR 0x09 else CHR 0x20]
                  else out)
      in print_1_line ext None False i out1)"

text \<open>
  The two loops \<open>while (k--)\<close>, for a count \<open>k\<close> that is not negative: the first prints
  from file 0 and moves \<open>i\<close>, the second prints from file 1 and moves \<open>j\<close>. The first
  argument says which (\<open>False\<close> for the deleted part). The result is the cursor and the
  stream.
\<close>

fun unidiff_changed_lines ::
  "bool \<Rightarrow> externals \<Rightarrow> config \<Rightarrow> file_data \<times> file_data \<Rightarrow> nat \<Rightarrow> lin \<Rightarrow> string \<Rightarrow>
   lin \<times> string" where
  "unidiff_changed_lines new ext cfg files 0 i out = (i, out)"
| "unidiff_changed_lines new ext cfg files (Suc k) i out =
     (let line = linbuf (if new then snd files else fst files) i;
          out1 = out @ (if new then ''+'' else ''-'');
          out2 = (if initial_tab cfg \<and> \<not> (suppress_blank_empty cfg \<and> starts_with_newline line)
                  then out1 @ [CHR 0x09]
                  else out1)
      in unidiff_changed_lines new ext cfg files k (i + 1) (print_1_line ext None new i out2))"

text \<open>
  The loop \<open>while (i <= last0 || j <= last1)\<close>. A count \<open>k\<close> below zero does not end
  \<open>while (k--)\<close> before the reads leave the line buffer. The result is the two cursors
  and the stream when the loop ends.
\<close>

function unidiff_loop ::
  "externals \<Rightarrow> config \<Rightarrow> file_data \<times> file_data \<Rightarrow> lin \<Rightarrow> lin \<Rightarrow> change list \<Rightarrow>
   lin \<Rightarrow> lin \<Rightarrow> string \<Rightarrow> failure + lin \<times> lin \<times> string" where
  "unidiff_loop ext cfg files last0 last1 next i j out =
     (if i \<le> last0 \<or> j \<le> last1
      then (if next = [] \<or> i < line0 (hd next)
            then unidiff_loop ext cfg files last0 last1 next (i + 1) (j + 1)
                   (unidiff_context_line ext cfg files i out)
            else if deleted (hd next) < 0 then Inl Bad_read
            else
              (case unidiff_changed_lines False ext cfg files
                      (nat (deleted (hd next))) i out of
                 (i1, out1) \<Rightarrow>
                   if inserted (hd next) < 0 then Inl Bad_read
                   else
                     (case unidiff_changed_lines True ext cfg files
                             (nat (inserted (hd next))) j out1 of
                        (j1, out2) \<Rightarrow>
                          unidiff_loop ext cfg files last0 last1 (tl next) i1 j1 out2)))
      else Inr (i, j, out))"
  by pat_completeness auto
termination
  by (relation "measures
        [\<lambda>(ext, cfg, files, last0, last1, next, i, j, out). length next,
         \<lambda>(ext, cfg, files, last0, last1, next, i, j, out).
            nat (max (last0 - i) (last1 - j) + 1)]") auto

declare unidiff_loop.simps [simp del]

definition pr_unidiff_hunk ::
  "externals \<Rightarrow> config \<Rightarrow> file_data \<times> file_data \<Rightarrow> change list \<Rightarrow> emit_state \<Rightarrow>
   failure + emit_state" where
  "pr_unidiff_hunk ext cfg files hunk st =
     (case analyze_hunk ext hunk of
        (changes, w) \<Rightarrow>
          if changes_is_zero changes then Inr st
          else
            (case include_context cfg files w of
               (first0, last0, first1, last1) \<Rightarrow>
                 (case find_function_if_desired ext cfg files first0 st of
                    (function, st1) \<Rightarrow>
                      (let out0 = begin_output ext (outfile st1);
                           out1 = out0 @ ''@@ -'';
                           out2 = print_unidiff_number_range (translate_range ext)
                                    (fst files) first0 last0 out1;
                           out3 = out2 @ '' +'';
                           out4 = print_unidiff_number_range (translate_range ext)
                                    (snd files) first1 last1 out3;
                           out5 = out4 @ '' @@''
                       in case print_function_if_found function out5 of
                            Inl e \<Rightarrow> Inl e
                          | Inr out6 \<Rightarrow>
                              (case unidiff_loop ext cfg files last0 last1 hunk first0 first1
                                      (out6 @ [newline]) of
                                 Inl e \<Rightarrow> Inl e
                               | Inr (i, j, out7) \<Rightarrow> Inr (st1\<lparr>outfile := out7\<rparr>))))))"

subsection \<open>print_context_script\<close>

text \<open>
  The script is changed in place, so the model returns it with the result of print_script,
  which is handed the script as the first statement left it. That first statement, the
  \<open>if\<close> that sets the ignore flags, is \<open>script_preparation\<close>.
\<close>

definition script_preparation :: "externals \<Rightarrow> config \<Rightarrow> change list \<Rightarrow> change list" where
  "script_preparation ext cfg script =
     (if ignore_blank_lines cfg \<or> ignore_regexp_fastmap cfg
      then mark_ignorable ext script
      else clear_ignore script)"

definition print_context_script ::
  "externals \<Rightarrow> config \<Rightarrow> file_data \<times> file_data \<Rightarrow> change list \<Rightarrow> bool \<Rightarrow> emit_state \<Rightarrow>
   change list \<times> (failure + emit_state)" where
  "print_context_script ext cfg files script unidiff st =
     (let script1 = script_preparation ext cfg script;
          st1 = st\<lparr>find_function_last_search := - prefix_lines (fst files),
                   find_function_last_match := LIN_MAX\<rparr>
      in (script1,
          if unidiff
          then print_script ext script1 (find_hunk cfg) (pr_unidiff_hunk ext cfg files) st1
          else print_script ext script1 (find_hunk cfg) (pr_context_hunk ext cfg files) st1))"

subsection \<open>analyze_hunk\<close>

text \<open>
  Modelled from the spec: the lines that a change may leave out. The function
  analyze_hunk is declared in diff.h and called from context.c, and its definition is
  not among the sources. A line is blank when it "consists solely of whitespace
  terminated by newline".
\<close>

definition blank_line :: "string \<Rightarrow> bool" where
  "blank_line line = (line \<noteq> [] \<and> last line = newline \<and> list_all c_isspace line)"

text \<open>
  Modelled from the spec: a line "is ignorable iff it is blank and ignore_blank_lines
  is on, or ignore_regex is present and matches the line". The matcher of the pattern,
  which no source at hand defines, is the parameter \<open>ignore_match\<close>.
\<close>

definition ignorable_line :: "config \<Rightarrow> (string \<Rightarrow> bool) \<Rightarrow> string \<Rightarrow> bool" where
  "ignorable_line cfg ignore_match line =
     ((blank_line line \<and> ignore_blank_lines cfg)
      \<or> (ignore_regexp_fastmap cfg \<and> ignore_match line))"

text \<open>
  Modelled from the spec: the condition that analyze_hunk puts on every change of a run
  for the kind UNCHANGED: the change "has ignore = true", "all its lines in file 0 are
  ignorable and all its lines in file 1 are ignorable".
\<close>

definition ignorable_change ::
  "config \<Rightarrow> (string \<Rightarrow> bool) \<Rightarrow> file_data \<times> file_data \<Rightarrow> change \<Rightarrow> bool" where
  "ignorable_change cfg ignore_match files c =
     (ignore c
      \<and> list_all (\<lambda>i. ignorable_line cfg ignore_match (linbuf (fst files) i))
           [line0 c..line0 c + deleted c - 1]
      \<and> list_all (\<lambda>i. ignorable_line cfg ignore_match (linbuf (snd files) i))
           [line1 c..line1 c + inserted c - 1])"

text \<open>
  Modelled from the spec: analyze_hunk, which context.c calls and no source at hand
  defines. "first0 = start.line0, first1 = start.line1, last0 = (last change in
  run).line0 + .deleted - 1, last1 = (last change in run).line1 + .inserted - 1"; the
  kind is "UNCHANGED if every Change in the run" is ignorable as above, "OLD if only
  deletions are materially significant, NEW if only insertions, CHANGED if both".
  Deletions are taken to be significant when a change of the run deletes a line, and
  insertions when one inserts a line; a run that does neither has no changes. The spec
  asks for a run that starts at a change; the result for the null pointer is a filler.
\<close>

definition analyze_hunk_of_spec ::
  "config \<Rightarrow> (string \<Rightarrow> bool) \<Rightarrow> file_data \<times> file_data \<Rightarrow> change list \<Rightarrow>
   changes \<times> lin \<times> lin \<times> lin \<times> lin" where
  "analyze_hunk_of_spec cfg ignore_match files hunk =
     (case hunk of
        [] \<Rightarrow> (UNCHANGED, 0, - 1, 0, - 1)
      | start # _ \<Rightarrow>
          (let final = last hunk;
               deletions = list_ex (\<lambda>c. 0 < deleted c) hunk;
               insertions = list_ex (\<lambda>c. 0 < inserted c) hunk;
               kind = (if list_all (ignorable_change cfg ignore_match files) hunk then UNCHANGED
                       else if deletions \<and> insertions then CHANGED
                       else if deletions then OLD
                       else if insertions then NEW
                       else UNCHANGED)
           in (kind, line0 start, line0 final + deleted final - 1,
               line1 start, line1 final + inserted final - 1)))"

subsection \<open>The notions that the properties are stated with\<close>

text \<open>
  The gap between two changes that follow each other, measured in file 0 and in file 1:
  the number of lines between the end of the first and the start of the second.
\<close>

definition gap0 :: "change \<Rightarrow> change \<Rightarrow> lin" where
  "gap0 prev nxt = line0 nxt - (line0 prev + deleted prev)"

definition gap1 :: "change \<Rightarrow> change \<Rightarrow> lin" where
  "gap1 prev nxt = line1 nxt - (line1 prev + inserted prev)"

text \<open>The threshold for taking a change into the hunk of the change before it.\<close>

definition threshold :: "config \<Rightarrow> change \<Rightarrow> lin" where
  "threshold cfg nxt = (if ignore nxt then context_lines cfg else 2 * context_lines cfg + 1)"

definition joins :: "config \<Rightarrow> change \<Rightarrow> change \<Rightarrow> bool" where
  "joins cfg prev nxt = (gap0 prev nxt < threshold cfg nxt)"

text \<open>The pairs of a change and its successor, in the order of the chain.\<close>

definition adjacent_pairs :: "change list \<Rightarrow> (change \<times> change) list" where
  "adjacent_pairs script = zip script (tl script)"

definition equal_gap :: "change \<times> change \<Rightarrow> bool" where
  "equal_gap pn = (gap0 (fst pn) (snd pn) = gap1 (fst pn) (snd pn))"

definition equal_gaps :: "change list \<Rightarrow> bool" where
  "equal_gaps script = list_all equal_gap (adjacent_pairs script)"

text \<open>
  The number of successors in the maximal run from the start of the chain: the longest
  run of pairs at the front of the chain in which every successor joins.
\<close>

definition run_length :: "config \<Rightarrow> change list \<Rightarrow> nat" where
  "run_length cfg script =
     length (takeWhile (\<lambda>pn. joins cfg (fst pn) (snd pn)) (adjacent_pairs script))"

text \<open>
  The walk from the start of the chain examines pair \<open>k\<close> (counted from 0) when the chain
  has such a pair and every pair before it passed both tests of the loop: its gaps were
  equal, and its successor joined.
\<close>

definition examines :: "config \<Rightarrow> change list \<Rightarrow> nat \<Rightarrow> bool" where
  "examines cfg script k =
     (k < length (adjacent_pairs script)
      \<and> list_all (\<lambda>pn. equal_gap pn \<and> joins cfg (fst pn) (snd pn))
           (take k (adjacent_pairs script)))"

text \<open>
  The conditions on a hunk and a window [first0, last0] x [first1, last1]: each change
  lies inside the window; its counts are not negative; the changes follow each other
  without overlap; and the window shows as many lines before the first change, and as
  many after the last one, in file 0 as in file 1.
\<close>

definition inside_window :: "lin \<Rightarrow> lin \<Rightarrow> lin \<Rightarrow> lin \<Rightarrow> change \<Rightarrow> bool" where
  "inside_window first0 last0 first1 last1 c =
     (first0 \<le> line0 c \<and> line0 c + deleted c - 1 \<le> last0
      \<and> first1 \<le> line1 c \<and> line1 c + inserted c - 1 \<le> last1)"

definition counts_not_negative :: "change \<Rightarrow> bool" where
  "counts_not_negative c = (0 \<le> deleted c \<and> 0 \<le> inserted c)"

definition no_overlap :: "change list \<Rightarrow> bool" where
  "no_overlap hunk = list_all (\<lambda>pn. 0 \<le> gap0 (fst pn) (snd pn)) (adjacent_pairs hunk)"

definition equal_margins :: "lin \<Rightarrow> lin \<Rightarrow> lin \<Rightarrow> lin \<Rightarrow> change list \<Rightarrow> bool" where
  "equal_margins first0 last0 first1 last1 hunk =
     (line0 (hd hunk) - first0 = line1 (hd hunk) - first1
      \<and> last0 - (line0 (last hunk) + deleted (last hunk))
        = last1 - (line1 (last hunk) + inserted (last hunk)))"

text \<open>
  What holds each time the loop of pr_unidiff_hunk tests its condition, with \<open>next\<close> the
  changes not yet printed and \<open>i\<close>, \<open>j\<close> the cursors: the cursors are at the same
  distance before the next change, and the lines after the last change up to the end of
  the window are as many in file 0 as in file 1; with no change left, the cursors are at
  the same distance from the end of the window.
\<close>

definition loop_invariant :: "lin \<Rightarrow> lin \<Rightarrow> change list \<Rightarrow> lin \<Rightarrow> lin \<Rightarrow> bool" where
  "loop_invariant last0 last1 next i j =
     (list_all counts_not_negative next \<and> no_overlap next \<and> equal_gaps next
      \<and> (if next = [] then i \<le> last0 + 1 \<and> last0 - i = last1 - j
          else i \<le> line0 (hd next) \<and> line0 (hd next) - i = line1 (hd next) - j
             \<and> line0 (last next) + deleted (last next) \<le> last0 + 1
             \<and> last0 - (line0 (last next) + deleted (last next))
               = last1 - (line1 (last next) + inserted (last next))))"




subsection \<open>Data for the examples\<close>

definition make_change :: "lin \<Rightarrow> lin \<Rightarrow> lin \<Rightarrow> lin \<Rightarrow> bool \<Rightarrow> change" where
  "make_change l0 d l1 n ig =
     \<lparr>inserted = n, deleted = d, line0 = l0, line1 = l1, ignore = ig\<rparr>"


definition example_config :: "lin \<Rightarrow> config" where
  "example_config c =
     \<lparr>context_lines = c, ignore_blank_lines = False, ignore_regexp_fastmap = False,
      function_regexp_fastmap = False, initial_tab = False, suppress_blank_empty = False,
      file_label0 = None, file_label1 = None, time_format = ''%F''\<rparr>"

text \<open>
  A file of \<open>n\<close> lines, each the decimal of its number and a newline; line 2 has the
  letter f in front.
\<close>

definition example_file :: "lin \<Rightarrow> file_data" where
  "example_file n =
     \<lparr>st_mtime = 86400, st_mtime_nsec = 5,
      linbuf = (\<lambda>i. (if i = 2 then ''f'' else []) @ fmt_ld i @ [newline]),
      valid_lines = n, prefix_lines = 0\<rparr>"

definition example_state :: emit_state where
  "example_state =
     \<lparr>outfile = [], find_function_last_search = 0, find_function_last_match = LIN_MAX\<rparr>"

text \<open>
  Stand-ins for the functions that are parameters: real numbers are internal numbers
  plus one, a line is printed as its prefix and its bytes, and a line "is a function
  header" when it starts with the letter f.
\<close>

definition example_externals :: "file_data \<times> file_data \<Rightarrow> externals" where
  "example_externals files =
     \<lparr>translate_range = (\<lambda>file a b. (word_of_int (a + 1), word_of_int (b + 1))),
      analyze_hunk = analyze_hunk_of_spec (example_config 3) (\<lambda>line. False) files,
      begin_output = (\<lambda>out. out),
      print_1_line = (\<lambda>prefix new i out.
         out @ (case prefix of None \<Rightarrow> [] | Some p \<Rightarrow> p @ '' '')
             @ linbuf (if new then snd files else fst files) i),
      print_script = (\<lambda>script hunkfun printfun st. Inr st),
      re_search = (\<lambda>line len. if take 1 line = ''f'' then 0 else - 1)\<rparr>"

section \<open>Part 2: the properties\<close>

subsection \<open>Decimal numbers\<close>

text \<open>
  \<open>decimal\<close> writes a number in base ten: its bytes are digits, and reading them back
  gives the number.
\<close>

lemma digit_char_code: "d < 10 \<Longrightarrow> (of_char (digit_char d) :: nat) = 48 + d"
proof -
  assume "d < 10"
  then have "d \<in> {0, 1, 2, 3, 4, 5, 6, 7, 8, 9}" by auto
  then show ?thesis by (auto simp: digit_char_def)
qed

lemma digit_char_props: "d < 10 \<Longrightarrow> is_digit (digit_char d) \<and> digit_value (digit_char d) = d"
  by (simp add: is_digit_def digit_value_def digit_char_code)

lemma read_decimal_snoc: "read_decimal (s @ [c]) = 10 * read_decimal s + digit_value c"
  by (simp add: read_decimal_def)

lemma read_decimal_decimal: "read_decimal (decimal n) = n"
proof (induction n rule: decimal.induct)
  case (1 n)
  show ?case
  proof (cases "n < 10")
    case True
    then show ?thesis
      by (subst decimal.simps) (simp add: read_decimal_def digit_char_props)
  next
    case False
    then have "read_decimal (decimal n) = 10 * read_decimal (decimal (n div 10)) + n mod 10"
      by (subst decimal.simps) (simp add: read_decimal_snoc digit_char_props)
    with 1 False show ?thesis by simp
  qed
qed




lemma fmt_ld_roundtrip: "0 \<le> i \<Longrightarrow> int (read_decimal (fmt_ld i)) = i"
  by (simp add: fmt_ld_def read_decimal_decimal)


subsection \<open>The printed ranges\<close>

lemma sint_span:
  fixes ta tb :: long
  assumes "1 \<le> sint ta" and "sint ta < sint tb"
  shows "sint (tb - ta + 1) = sint tb - sint ta + 1"
proof -
  have ub: "sint tb < 2 ^ 63" and lb: "- (2 ^ 63) \<le> sint ta"
    using sint_lt [of tb] sint_ge [of ta] by simp_all
  have d: "sint (tb - ta) = sint tb - sint ta"
    using assms ub by (simp add: sint_word_ariths signed_take_bit_int_eq_self)
  have "sint (tb - ta + 1) = signed_take_bit 63 (sint (tb - ta) + 1)"
    by (simp add: sint_word_ariths)
  also have "\<dots> = sint tb - sint ta + 1"
    using assms ub by (simp add: d signed_take_bit_int_eq_self)
  finally show ?thesis .
qed

text \<open>
  Claim C1. Let translate_range give the real numbers \<open>ta\<close> and \<open>tb\<close> for a file and two
  internal line numbers, \<open>ta\<close> being a line number of origin 1. The context printer
  appends \<open>tb\<close> in decimal when \<open>tb \<le> ta\<close>, and otherwise \<open>ta\<close>, a comma and \<open>tb\<close>. The
  unified printer appends \<open>tb\<close> and \<open>,0\<close> when \<open>tb < ta\<close>, \<open>tb\<close> alone when \<open>tb = ta\<close>, and
  otherwise \<open>ta\<close>, a comma and the length \<open>tb - ta + 1\<close>. The code computes the length on
  64-bit words; the statement is about the integers that the words stand for.
\<close>

theorem number_ranges:
  assumes "translate_range ext file a b = (ta, tb)" and "1 \<le> sint ta"
  shows "print_context_number_range (translate_range ext) file a b out =
           out @ (if sint tb \<le> sint ta then fmt_ld (sint tb)
                  else fmt_ld (sint ta) @ '','' @ fmt_ld (sint tb))
       \<and> print_unidiff_number_range (translate_range ext) file a b out =
           out @ (if sint tb < sint ta then fmt_ld (sint tb) @ '',0''
                  else if sint tb = sint ta then fmt_ld (sint tb)
                  else fmt_ld (sint ta) @ '','' @ fmt_ld (sint tb - sint ta + 1))"
  using assms
  by (auto simp: print_context_number_range_def print_unidiff_number_range_def sint_span)

theorem number_ranges_witness:
  "print_context_number_range
     (translate_range (example_externals (example_file 5, example_file 5)))
     (example_file 5) 0 4 ''*** '' = ''*** 1,5''
   \<and> print_unidiff_number_range
     (translate_range (example_externals (example_file 5, example_file 5)))
     (example_file 5) 0 4 ''@@ -'' = ''@@ -1,5''
   \<and> print_context_number_range
     (translate_range (example_externals (example_file 5, example_file 5)))
     (example_file 5) 2 1 ''--- '' = ''--- 2''
   \<and> print_unidiff_number_range
     (translate_range (example_externals (example_file 5, example_file 5)))
     (example_file 5) 2 1 '' +'' = '' +2,0''"
proof -
  let ?ext = "example_externals (example_file 5, example_file 5)"
  have t: "translate_range ?ext (example_file 5) 0 4 = (1, 5)"
    and u: "translate_range ?ext (example_file 5) 2 1 = (3, 2)"
    by (simp_all add: example_externals_def)
  have o: "1 \<le> sint (1 :: long)" and p: "1 \<le> sint (3 :: long)" by simp_all
  have f: "fmt_ld 1 = ''1''" "fmt_ld 5 = ''5''" "fmt_ld 2 = ''2''" by code_simp+
  from number_ranges [OF t o] number_ranges [OF u p] f show ?thesis by simp
qed

subsection \<open>The header\<close>




subsection \<open>Grouping changes into hunks\<close>

lemma adjacent_pairs_simps [simp]:
  "adjacent_pairs [] = []"
  "adjacent_pairs [c] = []"
  "adjacent_pairs (c # n # rest) = (c, n) # adjacent_pairs (n # rest)"
  by (simp_all add: adjacent_pairs_def)

lemma length_adjacent_pairs: "length (adjacent_pairs script) = length script - 1"
  by (simp add: adjacent_pairs_def)

lemma nth_adjacent_pairs:
  "Suc k < length script \<Longrightarrow> adjacent_pairs script ! k = (script ! k, script ! Suc k)"
  by (simp add: adjacent_pairs_def nth_tl)

lemma find_hunk_step:
  "find_hunk cfg (c # n # rest) =
     (if \<not> equal_gap (c, n) then Inl Abort
      else if joins cfg c n then find_hunk cfg (n # rest)
      else Inr (c # n # rest))"
  by (simp add: equal_gap_def joins_def gap0_def gap1_def threshold_def Let_def)

lemma find_hunk_single: "find_hunk cfg [c] = Inr [c]"
  by simp

lemma find_hunk_run:
  "equal_gaps (c # rest) \<Longrightarrow>
   find_hunk cfg (c # rest) = Inr (drop (run_length cfg (c # rest)) (c # rest))"
proof (induction rest arbitrary: c)
  case Nil
  show ?case by (simp add: run_length_def)
next
  case (Cons n rest)
  from Cons.prems have e: "equal_gap (c, n)" and rest: "equal_gaps (n # rest)"
    by (simp_all add: equal_gaps_def)
  show ?case
  proof (cases "joins cfg c n")
    case True
    then have "run_length cfg (c # n # rest) = Suc (run_length cfg (n # rest))"
      by (simp add: run_length_def)
    with True e Cons.IH [OF rest] show ?thesis
      by (simp only: find_hunk_step) simp
  next
    case False
    then have "run_length cfg (c # n # rest) = 0"
      by (simp add: run_length_def)
    with False e show ?thesis
      by (simp only: find_hunk_step) simp
  qed
qed

lemma run_length_less: "script \<noteq> [] \<Longrightarrow> run_length cfg script < length script"
proof -
  assume "script \<noteq> []"
  have "run_length cfg script \<le> length (adjacent_pairs script)"
    unfolding run_length_def by (rule length_takeWhile_le)
  with \<open>script \<noteq> []\<close> show ?thesis by (cases script) (simp_all add: length_adjacent_pairs)
qed

lemma run_length_joins:
  assumes "i < run_length cfg script"
  shows "joins cfg (script ! i) (script ! Suc i)"
proof -
  let ?P = "\<lambda>pn. joins cfg (fst pn) (snd pn)"
  let ?ps = "adjacent_pairs script"
  from assms have i: "i < length (takeWhile ?P ?ps)" by (simp add: run_length_def)
  then have "takeWhile ?P ?ps ! i \<in> set (takeWhile ?P ?ps)" by (rule nth_mem)
  then have "?P (takeWhile ?P ?ps ! i)" by (rule set_takeWhileD [THEN conjunct2])
  moreover have "takeWhile ?P ?ps ! i = ?ps ! i" using i by (rule takeWhile_nth)
  moreover have "Suc i < length script"
    using i length_takeWhile_le [of ?P ?ps] by (simp add: length_adjacent_pairs)
  ultimately show ?thesis by (simp add: nth_adjacent_pairs)
qed

lemma run_length_stops:
  assumes "Suc (run_length cfg script) < length script"
  shows "\<not> joins cfg (script ! run_length cfg script) (script ! Suc (run_length cfg script))"
proof -
  let ?P = "\<lambda>pn. joins cfg (fst pn) (snd pn)"
  let ?ps = "adjacent_pairs script"
  from assms have "length (takeWhile ?P ?ps) < length ?ps"
    by (simp add: run_length_def length_adjacent_pairs)
  then have "\<not> ?P (?ps ! length (takeWhile ?P ?ps))" by (rule nth_length_takeWhile)
  with assms show ?thesis by (simp add: nth_adjacent_pairs run_length_def)
qed

text \<open>
  Claim C2, amended. For every non-empty script whose adjacent changes have equal gaps
  in the two files, find_hunk returns the chain at the last change of the maximal run
  from the start: every successor up to it joins (its gap in file 0 is below the
  threshold, which is \<open>context\<close> for an ignorable successor and \<open>2 * context + 1\<close>
  otherwise), and the change after it, if there is one, does not. For a chain of one
  change that change is returned.
\<close>

theorem find_hunk_maximal_run:
  assumes "script \<noteq> []" and "equal_gaps script"
  shows "find_hunk cfg script = Inr (drop (run_length cfg script) script)
       \<and> hd (drop (run_length cfg script) script) = script ! run_length cfg script
       \<and> run_length cfg script < length script
       \<and> (\<forall>i < run_length cfg script. joins cfg (script ! i) (script ! Suc i))
       \<and> (Suc (run_length cfg script) < length script \<longrightarrow>
            \<not> joins cfg (script ! run_length cfg script) (script ! Suc (run_length cfg script)))
       \<and> (length script = 1 \<longrightarrow> find_hunk cfg script = Inr script)"
proof -
  from assms obtain c rest where s: "script = c # rest" by (cases script) auto
  have "find_hunk cfg script = Inr (drop (run_length cfg script) script)"
    using assms(2) unfolding s by (rule find_hunk_run)
  moreover have "hd (drop (run_length cfg script) script) = script ! run_length cfg script"
    using run_length_less [OF assms(1)] by (simp add: hd_drop_conv_nth)
  moreover have "length script = 1 \<longrightarrow> find_hunk cfg script = Inr script"
    unfolding s by (cases rest) simp_all
  ultimately show ?thesis
    using run_length_less [OF assms(1)] run_length_joins run_length_stops by blast
qed

theorem find_hunk_maximal_run_witness:
  "equal_gaps [make_change 10 1 10 1 False, make_change 14 1 14 1 False,
               make_change 30 1 30 1 False]
   \<and> find_hunk (example_config 2)
       [make_change 10 1 10 1 False, make_change 14 1 14 1 False, make_change 30 1 30 1 False]
     = Inr [make_change 14 1 14 1 False, make_change 30 1 30 1 False]"
proof -
  let ?s = "[make_change 10 1 10 1 False, make_change 14 1 14 1 False,
             make_change 30 1 30 1 False]"
  have h1: "?s \<noteq> []" by simp
  have h2: "equal_gaps ?s"
    by (simp add: equal_gaps_def equal_gap_def gap0_def gap1_def make_change_def)
  have r: "run_length (example_config 2) ?s = 1"
    by (simp add: run_length_def joins_def gap0_def threshold_def make_change_def
        example_config_def)
  from find_hunk_maximal_run [OF h1 h2, of "example_config 2"] r h2 show ?thesis by simp
qed

text \<open>
  As the claim was stated, for every non-empty script, it fails: when the gap to the
  second change is 1 in file 0 and 4 in file 1, find_hunk aborts and returns no change.
\<close>

theorem find_hunk_maximal_run_counterexample:
  "[make_change 0 1 0 0 False, make_change 2 1 5 1 False] \<noteq> []
   \<and> find_hunk (example_config 3) [make_change 0 1 0 0 False, make_change 2 1 5 1 False]
       = Inl Abort
   \<and> find_hunk (example_config 3) [make_change 0 1 0 0 False, make_change 2 1 5 1 False]
       \<noteq> Inr (drop (run_length (example_config 3)
                      [make_change 0 1 0 0 False, make_change 2 1 5 1 False])
                [make_change 0 1 0 0 False, make_change 2 1 5 1 False])"
  by (simp add: make_change_def example_config_def)

lemma examines_simps:
  "examines cfg (c # n # rest) 0"
  "examines cfg (c # n # rest) (Suc k) \<longleftrightarrow>
     equal_gap (c, n) \<and> joins cfg c n \<and> examines cfg (n # rest) k"
  "\<not> examines cfg [c] k"
  by (auto simp: examines_def)

lemma find_hunk_abort_iff:
  "find_hunk cfg (c # rest) = Inl Abort \<longleftrightarrow>
     (\<exists>k. examines cfg (c # rest) k \<and> \<not> equal_gap (adjacent_pairs (c # rest) ! k))"
proof (induction rest arbitrary: c)
  case Nil
  show ?case by (simp add: examines_simps)
next
  case (Cons n rest)
  show ?case
  proof (cases "equal_gap (c, n)")
    case False
    then have "examines cfg (c # n # rest) 0 \<and> \<not> equal_gap (adjacent_pairs (c # n # rest) ! 0)"
      by (simp add: examines_simps)
    then have "\<exists>k. examines cfg (c # n # rest) k \<and> \<not> equal_gap (adjacent_pairs (c # n # rest) ! k)"
      by blast
    with False show ?thesis by (simp only: find_hunk_step) simp
  next
    case e: True
    show ?thesis
    proof (cases "joins cfg c n")
      case False
      have "\<not> (examines cfg (c # n # rest) k \<and> \<not> equal_gap (adjacent_pairs (c # n # rest) ! k))"
        for k using e False by (cases k) (simp_all add: examines_simps)
      with e False show ?thesis by (simp only: find_hunk_step) simp
    next
      case True
      have "(\<exists>k. examines cfg (c # n # rest) k \<and> \<not> equal_gap (adjacent_pairs (c # n # rest) ! k))
        \<longleftrightarrow> (\<exists>k. examines cfg (n # rest) k \<and> \<not> equal_gap (adjacent_pairs (n # rest) ! k))"
        (is "?L \<longleftrightarrow> ?R")
      proof
        assume ?L
        then obtain k where k: "examines cfg (c # n # rest) k"
          "\<not> equal_gap (adjacent_pairs (c # n # rest) ! k)" by blast
        with e obtain k' where "k = Suc k'" by (cases k) simp_all
        with k show ?R by (auto simp: examines_simps)
      next
        assume ?R
        then obtain k where "examines cfg (n # rest) k"
          "\<not> equal_gap (adjacent_pairs (n # rest) ! k)" by blast
        with e True have "examines cfg (c # n # rest) (Suc k)
          \<and> \<not> equal_gap (adjacent_pairs (c # n # rest) ! Suc k)"
          by (simp add: examines_simps)
        then show ?L by blast
      qed
      with e True Cons.IH [of n] show ?thesis by (simp only: find_hunk_step) simp
    qed
  qed
qed

text \<open>
  Claim C3. When every adjacent pair of the script has equal gaps in the two files,
  find_hunk does not abort. And find_hunk aborts exactly when the walk examines a pair
  whose gap in file 0 differs from its gap in file 1.
\<close>

theorem find_hunk_abort:
  "(equal_gaps script \<longrightarrow> find_hunk cfg script \<noteq> Inl Abort)
   \<and> (find_hunk cfg script = Inl Abort \<longleftrightarrow>
        (\<exists>k. examines cfg script k \<and> \<not> equal_gap (adjacent_pairs script ! k)))"
proof (cases script)
  case Nil
  then show ?thesis by (simp add: examines_def)
next
  case (Cons c rest)
  have "\<not> (examines cfg script k \<and> \<not> equal_gap (adjacent_pairs script ! k))"
    if "equal_gaps script" for k
  proof
    assume a: "examines cfg script k \<and> \<not> equal_gap (adjacent_pairs script ! k)"
    then have "k < length (adjacent_pairs script)" by (simp add: examines_def)
    with that have "equal_gap (adjacent_pairs script ! k)"
      by (simp add: equal_gaps_def list_all_length)
    with a show False by simp
  qed
  then show ?thesis unfolding Cons using find_hunk_abort_iff [of cfg c rest] by blast
qed

theorem find_hunk_abort_witness:
  "equal_gaps [make_change 10 1 10 1 False, make_change 14 1 14 1 False]
   \<and> find_hunk (example_config 2) [make_change 10 1 10 1 False, make_change 14 1 14 1 False]
       \<noteq> Inl Abort
   \<and> examines (example_config 3) [make_change 0 1 0 0 False, make_change 2 1 5 1 False] 0
   \<and> \<not> equal_gap (adjacent_pairs [make_change 0 1 0 0 False, make_change 2 1 5 1 False] ! 0)
   \<and> find_hunk (example_config 3) [make_change 0 1 0 0 False, make_change 2 1 5 1 False]
       = Inl Abort"
proof -
  let ?good = "[make_change 10 1 10 1 False, make_change 14 1 14 1 False]"
  let ?bad = "[make_change 0 1 0 0 False, make_change 2 1 5 1 False]"
  have g: "equal_gaps ?good"
    by (simp add: equal_gaps_def equal_gap_def gap0_def gap1_def make_change_def)
  have x: "examines (example_config 3) ?bad 0" by (simp add: examines_def)
  have u: "\<not> equal_gap (adjacent_pairs ?bad ! 0)"
    by (simp add: equal_gap_def gap0_def gap1_def make_change_def)
  from find_hunk_abort [of ?good "example_config 2"] g
  have 1: "find_hunk (example_config 2) ?good \<noteq> Inl Abort" by blast
  from find_hunk_abort [of ?bad "example_config 3"] x u
  have 2: "find_hunk (example_config 3) ?bad = Inl Abort" by blast
  from g 1 x u 2 show ?thesis by blast
qed

subsection \<open>Marking the changes that can be ignored\<close>

lemma changes_is_zero_iff: "changes_is_zero k \<longleftrightarrow> k = UNCHANGED"
  by (cases k) (simp_all add: changes_is_zero_def)

lemma mark_ignorable_map:
  "mark_ignorable ext script =
     map (\<lambda>c. c\<lparr>ignore := (fst (analyze_hunk ext [c]) = UNCHANGED)\<rparr>) script"
  by (induction script) (simp_all add: changes_is_zero_iff split: prod.splits)

lemma clear_ignore_map: "clear_ignore script = map (\<lambda>c. c\<lparr>ignore := False\<rparr>) script"
  by (induction script) simp_all

text \<open>
  Claim C5. print_context_script hands to print_script, which prints the hunks, the
  script with every change marked: when ignore_blank_lines is off and there is no
  ignore pattern, every flag is false; otherwise the flag of each change is true
  exactly when analyze_hunk, handed that change alone with a null link, gives the kind
  UNCHANGED. The chain is as before: the same changes in the same order, with no other
  field changed.
\<close>

theorem script_premarked:
  "fst (print_context_script ext cfg files script unidiff st) =
     (if \<not> ignore_blank_lines cfg \<and> \<not> ignore_regexp_fastmap cfg
      then map (\<lambda>c. c\<lparr>ignore := False\<rparr>) script
      else map (\<lambda>c. c\<lparr>ignore := (fst (analyze_hunk ext [c]) = UNCHANGED)\<rparr>) script)
   \<and> snd (print_context_script ext cfg files script unidiff st) =
       print_script ext (fst (print_context_script ext cfg files script unidiff st))
         (find_hunk cfg)
         (if unidiff then pr_unidiff_hunk ext cfg files else pr_context_hunk ext cfg files)
         (st\<lparr>find_function_last_search := - prefix_lines (fst files),
             find_function_last_match := LIN_MAX\<rparr>)"
  by (simp add: print_context_script_def script_preparation_def Let_def
      mark_ignorable_map clear_ignore_map)

theorem script_premarked_witness:
  "fst (print_context_script (example_externals (example_file 5, example_file 5))
          ((example_config 3)\<lparr>ignore_blank_lines := True\<rparr>) (example_file 5, example_file 5)
          [make_change 1 1 1 0 True, make_change 3 0 3 0 True] True example_state)
   = [make_change 1 1 1 0 False, make_change 3 0 3 0 True]"
proof -
  let ?files = "(example_file 5, example_file 5)"
  let ?ext = "example_externals ?files"
  have a: "fst (analyze_hunk ?ext [make_change 1 1 1 0 True]) = OLD"
    by (simp add: example_externals_def analyze_hunk_of_spec_def ignorable_change_def
        ignorable_line_def make_change_def example_config_def Let_def upto.simps)
  have b: "fst (analyze_hunk ?ext [make_change 3 0 3 0 True]) = UNCHANGED"
    by (simp add: example_externals_def analyze_hunk_of_spec_def ignorable_change_def
        make_change_def Let_def)
  have c: "(make_change 1 1 1 0 True)\<lparr>ignore := False\<rparr> = make_change 1 1 1 0 False"
    "(make_change 3 0 3 0 True)\<lparr>ignore := True\<rparr> = make_change 3 0 3 0 True"
    by (simp_all add: make_change_def)
  from script_premarked [of ?ext "(example_config 3)\<lparr>ignore_blank_lines := True\<rparr>" ?files
      "[make_change 1 1 1 0 True, make_change 3 0 3 0 True]" True example_state]
  show ?thesis by (simp add: a b c)
qed

text \<open>
  Claim C6. When analyze_hunk gives the kind UNCHANGED for a hunk, the context printer
  and the unified printer return at once: the stream and the two static variables are
  as they were.
\<close>

theorem unchanged_hunk_prints_nothing:
  assumes "fst (analyze_hunk ext hunk) = UNCHANGED"
  shows "pr_context_hunk ext cfg files hunk st = Inr st
       \<and> pr_unidiff_hunk ext cfg files hunk st = Inr st"
proof (cases "analyze_hunk ext hunk")
  case (fields kind first0 last0 first1 last1)
  with assms have "changes_is_zero kind" by (simp add: changes_is_zero_iff)
  with fields show ?thesis by (simp add: pr_context_hunk_def pr_unidiff_hunk_def)
qed

theorem unchanged_hunk_prints_nothing_witness:
  "fst (analyze_hunk (example_externals (example_file 5, example_file 5))
          [make_change 3 0 3 0 True]) = UNCHANGED
   \<and> pr_context_hunk (example_externals (example_file 5, example_file 5)) (example_config 3)
       (example_file 5, example_file 5) [make_change 3 0 3 0 True] example_state
     = Inr example_state
   \<and> pr_unidiff_hunk (example_externals (example_file 5, example_file 5)) (example_config 3)
       (example_file 5, example_file 5) [make_change 3 0 3 0 True] example_state
     = Inr example_state"
proof -
  let ?files = "(example_file 5, example_file 5)"
  have b: "fst (analyze_hunk (example_externals ?files) [make_change 3 0 3 0 True]) = UNCHANGED"
    by (simp add: example_externals_def analyze_hunk_of_spec_def ignorable_change_def
        make_change_def Let_def)
  from unchanged_hunk_prints_nothing [OF b] b show ?thesis by blast
qed

lemma analyze_single_kind:
  "fst (analyze_hunk_of_spec cfg m files [c]) = UNCHANGED \<longleftrightarrow>
     ignorable_change cfg m files c \<or> (\<not> 0 < deleted c \<and> \<not> 0 < inserted c)"
  by (simp add: analyze_hunk_of_spec_def Let_def)

lemma mark_stable:
  "fst (analyze_hunk_of_spec cfg m files
          [c\<lparr>ignore := (fst (analyze_hunk_of_spec cfg m files [c]) = UNCHANGED)\<rparr>]) = UNCHANGED
   \<longleftrightarrow> fst (analyze_hunk_of_spec cfg m files [c]) = UNCHANGED"
  by (auto simp: analyze_single_kind ignorable_change_def)

lemma mark_ignorable_twice:
  assumes "analyze_hunk ext = analyze_hunk_of_spec cfg m files"
  shows "mark_ignorable ext (mark_ignorable ext script) = mark_ignorable ext script"
proof (induction script)
  case Nil
  show ?case by simp
next
  case (Cons c script)
  obtain k w where k: "analyze_hunk_of_spec cfg m files [c] = (k, w)"
    by (cases "analyze_hunk_of_spec cfg m files [c]")
  obtain k' w' where k':
    "analyze_hunk_of_spec cfg m files [c\<lparr>ignore := changes_is_zero k\<rparr>] = (k', w')"
    by (cases "analyze_hunk_of_spec cfg m files [c\<lparr>ignore := changes_is_zero k\<rparr>]")
  have "k' = UNCHANGED \<longleftrightarrow> k = UNCHANGED"
    using mark_stable [where cfg = cfg and m = m and files = files and c = c] k k'
    by (simp add: changes_is_zero_iff)
  then have "changes_is_zero k' = changes_is_zero k"
    by (simp add: changes_is_zero_iff)
  with Cons k k' assms show ?case by simp
qed

lemma mark_ignorable_twice_independent:
  assumes "\<forall>c b. fst (analyze_hunk ext [c\<lparr>ignore := b\<rparr>]) = fst (analyze_hunk ext [c])"
  shows "mark_ignorable ext (mark_ignorable ext script) = mark_ignorable ext script"
  using assms by (simp add: mark_ignorable_map)

text \<open>
  Claim C8. With analyze_hunk as the spec describes it, for every script and every
  configuration, marking the script a second time changes no flag: the result of two
  runs of the first statement of print_context_script is the result of one. The same
  holds with any analyze_hunk whose kind for a single change does not depend on the
  ignore flag of that change (diff.h says of the flag: "Flag used in context.c").
\<close>

theorem preparation_idempotent:
  "script_preparation (ext\<lparr>analyze_hunk := analyze_hunk_of_spec cfg ignore_match files\<rparr>) cfg
     (script_preparation (ext\<lparr>analyze_hunk := analyze_hunk_of_spec cfg ignore_match files\<rparr>) cfg
        script)
   = script_preparation (ext\<lparr>analyze_hunk := analyze_hunk_of_spec cfg ignore_match files\<rparr>) cfg
       script
   \<and> ((\<forall>c b. fst (analyze_hunk ext [c\<lparr>ignore := b\<rparr>]) = fst (analyze_hunk ext [c])) \<longrightarrow>
        script_preparation ext cfg (script_preparation ext cfg script)
        = script_preparation ext cfg script)"
  by (simp add: script_preparation_def mark_ignorable_twice mark_ignorable_twice_independent
      clear_ignore_map)

theorem preparation_idempotent_witness:
  "(\<forall>c b. fst (analyze_hunk
                ((example_externals (example_file 5, example_file 5))
                   \<lparr>analyze_hunk := (\<lambda>hunk. (if list_all (\<lambda>c. deleted c = 0) hunk
                                               then UNCHANGED else OLD, 0, 0, 0, 0))\<rparr>)
                [c\<lparr>ignore := b\<rparr>])
          = fst (analyze_hunk
                ((example_externals (example_file 5, example_file 5))
                   \<lparr>analyze_hunk := (\<lambda>hunk. (if list_all (\<lambda>c. deleted c = 0) hunk
                                               then UNCHANGED else OLD, 0, 0, 0, 0))\<rparr>)
                [c]))
   \<and> script_preparation
       ((example_externals (example_file 5, example_file 5))
          \<lparr>analyze_hunk := (\<lambda>hunk. (if list_all (\<lambda>c. deleted c = 0) hunk
                                      then UNCHANGED else OLD, 0, 0, 0, 0))\<rparr>)
       ((example_config 3)\<lparr>ignore_blank_lines := True\<rparr>)
       (script_preparation
          ((example_externals (example_file 5, example_file 5))
             \<lparr>analyze_hunk := (\<lambda>hunk. (if list_all (\<lambda>c. deleted c = 0) hunk
                                         then UNCHANGED else OLD, 0, 0, 0, 0))\<rparr>)
          ((example_config 3)\<lparr>ignore_blank_lines := True\<rparr>)
          [make_change 1 1 1 0 True, make_change 3 0 3 1 False])
     = [make_change 1 1 1 0 False, make_change 3 0 3 1 True]
   \<and> script_preparation
       ((example_externals (example_file 5, example_file 5))
          \<lparr>analyze_hunk := analyze_hunk_of_spec ((example_config 3)\<lparr>ignore_blank_lines := True\<rparr>)
             (\<lambda>line. False) (example_file 5, example_file 5)\<rparr>)
       ((example_config 3)\<lparr>ignore_blank_lines := True\<rparr>)
       (script_preparation
          ((example_externals (example_file 5, example_file 5))
             \<lparr>analyze_hunk := analyze_hunk_of_spec ((example_config 3)\<lparr>ignore_blank_lines := True\<rparr>)
                (\<lambda>line. False) (example_file 5, example_file 5)\<rparr>)
          ((example_config 3)\<lparr>ignore_blank_lines := True\<rparr>)
          [make_change 1 1 1 0 True, make_change 3 0 3 0 True])
     = script_preparation
         ((example_externals (example_file 5, example_file 5))
            \<lparr>analyze_hunk := analyze_hunk_of_spec ((example_config 3)\<lparr>ignore_blank_lines := True\<rparr>)
               (\<lambda>line. False) (example_file 5, example_file 5)\<rparr>)
         ((example_config 3)\<lparr>ignore_blank_lines := True\<rparr>)
         [make_change 1 1 1 0 True, make_change 3 0 3 0 True]"
proof -
  let ?ext = "(example_externals (example_file 5, example_file 5))
                \<lparr>analyze_hunk := (\<lambda>hunk. (if list_all (\<lambda>c. deleted c = 0) hunk
                                            then UNCHANGED else OLD, 0, 0, 0, 0))\<rparr>"
  let ?cfg = "(example_config 3)\<lparr>ignore_blank_lines := True\<rparr>"
  let ?script = "[make_change 1 1 1 0 True, make_change 3 0 3 1 False]"
  have h: "\<forall>c b. fst (analyze_hunk ?ext [c\<lparr>ignore := b\<rparr>]) = fst (analyze_hunk ?ext [c])"
    by simp
  have once: "script_preparation ?ext ?cfg ?script
      = [make_change 1 1 1 0 False, make_change 3 0 3 1 True]"
    by (simp add: script_preparation_def example_config_def make_change_def
        changes_is_zero_def)
  from preparation_idempotent [where ext = ?ext and cfg = ?cfg and script = ?script] h
  have "script_preparation ?ext ?cfg (script_preparation ?ext ?cfg ?script)
      = script_preparation ?ext ?cfg ?script"
    by blast
  with h once have b: "(\<forall>c b. fst (analyze_hunk ?ext [c\<lparr>ignore := b\<rparr>])
                          = fst (analyze_hunk ?ext [c]))
      \<and> script_preparation ?ext ?cfg (script_preparation ?ext ?cfg ?script)
        = [make_change 1 1 1 0 False, make_change 3 0 3 1 True]"
    by simp
  from preparation_idempotent [where ext = "example_externals (example_file 5, example_file 5)"
      and cfg = ?cfg and ignore_match = "\<lambda>line. False"
      and files = "(example_file 5, example_file 5)"
      and script = "[make_change 1 1 1 0 True, make_change 3 0 3 0 True]"]
  have a: "script_preparation
       ((example_externals (example_file 5, example_file 5))
          \<lparr>analyze_hunk := analyze_hunk_of_spec ?cfg (\<lambda>line. False)
             (example_file 5, example_file 5)\<rparr>) ?cfg
       (script_preparation
          ((example_externals (example_file 5, example_file 5))
             \<lparr>analyze_hunk := analyze_hunk_of_spec ?cfg (\<lambda>line. False)
                (example_file 5, example_file 5)\<rparr>) ?cfg
          [make_change 1 1 1 0 True, make_change 3 0 3 0 True])
     = script_preparation
         ((example_externals (example_file 5, example_file 5))
            \<lparr>analyze_hunk := analyze_hunk_of_spec ?cfg (\<lambda>line. False)
               (example_file 5, example_file 5)\<rparr>) ?cfg
         [make_change 1 1 1 0 True, make_change 3 0 3 0 True]"
    by (rule conjunct1)
  from b a show ?thesis by blast
qed

subsection \<open>The loop of the unified printer\<close>

lemma changed_lines_cursor:
  "fst (unidiff_changed_lines new ext cfg files k i out) = i + int k"
  by (induction k arbitrary: i out) (simp_all add: Let_def)

lemma ordered_hunk_span:
  "hunk \<noteq> [] \<Longrightarrow> list_all counts_not_negative hunk \<Longrightarrow> no_overlap hunk \<Longrightarrow>
   equal_gaps hunk \<Longrightarrow>
   line0 (hd hunk) \<le> line0 (last hunk) + deleted (last hunk)
   \<and> line1 (hd hunk) \<le> line1 (last hunk) + inserted (last hunk)"
proof (induction hunk rule: list_nonempty_induct)
  case (single c)
  then show ?case by (simp add: counts_not_negative_def)
next
  case (cons c hunk)
  then obtain n rest where h: "hunk = n # rest" by (cases hunk) auto
  from cons.prems h have "0 \<le> gap0 c n" "gap0 c n = gap1 c n" "0 \<le> deleted c" "0 \<le> inserted c"
    by (simp_all add: no_overlap_def equal_gaps_def equal_gap_def counts_not_negative_def)
  then have "line0 c \<le> line0 n" "line1 c \<le> line1 n"
    by (simp_all add: gap0_def gap1_def)
  moreover from cons.prems h have "list_all counts_not_negative hunk" "no_overlap hunk"
    "equal_gaps hunk"
    by (simp_all add: no_overlap_def equal_gaps_def)
  ultimately show ?case using cons.IH cons.hyps h by simp
qed

lemma loop_invariant_end:
  assumes "loop_invariant last0 last1 next i j" and "\<not> (i \<le> last0 \<or> j \<le> last1)"
  shows "i = last0 + 1 \<and> j = last1 + 1"
proof (cases "next = []")
  case True
  with assms show ?thesis by (auto simp: loop_invariant_def)
next
  case False
  with assms have inv: "list_all counts_not_negative next" "no_overlap next" "equal_gaps next"
    "i \<le> line0 (hd next)" "line0 (hd next) - i = line1 (hd next) - j"
    "line0 (last next) + deleted (last next) \<le> last0 + 1"
    "last0 - (line0 (last next) + deleted (last next))
       = last1 - (line1 (last next) + inserted (last next))"
    by (simp_all add: loop_invariant_def)
  from ordered_hunk_span [OF False inv(1-3)] inv(4-7) assms(2) show ?thesis by linarith
qed

lemma loop_invariant_context:
  assumes "loop_invariant last0 last1 next i j" and "i \<le> last0 \<or> j \<le> last1"
    and "next = [] \<or> i < line0 (hd next)"
  shows "loop_invariant last0 last1 next (i + 1) (j + 1)"
  using assms by (auto simp: loop_invariant_def)

lemma loop_invariant_change:
  assumes "loop_invariant last0 last1 next i j"
    and "\<not> (next = [] \<or> i < line0 (hd next))"
  shows "0 \<le> deleted (hd next) \<and> 0 \<le> inserted (hd next)
       \<and> loop_invariant last0 last1 (tl next) (i + deleted (hd next)) (j + inserted (hd next))"
proof -
  from assms(2) obtain c rest where n: "next = c # rest" and i: "\<not> i < line0 c"
    by (cases "next") auto
  from assms(1) n have c: "0 \<le> deleted c" "0 \<le> inserted c"
    and rest: "list_all counts_not_negative rest" "no_overlap rest" "equal_gaps rest"
    by (cases rest; simp add: loop_invariant_def counts_not_negative_def no_overlap_def
        equal_gaps_def)+
  from assms(1) n i have ij: "i = line0 c" "j = line1 c"
    by (simp_all add: loop_invariant_def)
  show ?thesis
  proof (cases rest)
    case Nil
    with assms(1) n c ij rest show ?thesis by (simp add: loop_invariant_def)
  next
    case (Cons m more)
    with assms(1) n have "0 \<le> gap0 c m" "gap0 c m = gap1 c m"
      by (simp_all add: loop_invariant_def no_overlap_def equal_gaps_def equal_gap_def)
    with assms(1) n c ij rest Cons show ?thesis
      by (simp add: loop_invariant_def gap0_def gap1_def)
  qed
qed

lemma unidiff_loop_ends:
  "loop_invariant last0 last1 next i j \<Longrightarrow>
   \<exists>out'. unidiff_loop ext cfg files last0 last1 next i j out = Inr (last0 + 1, last1 + 1, out')"
proof (induction ext cfg files last0 last1 "next" i j out rule: unidiff_loop.induct)
  case (1 ext cfg files last0 last1 "next" i j out)
  show ?case
  proof (cases "i \<le> last0 \<or> j \<le> last1")
    case False
    with loop_invariant_end [OF "1.prems" False] show ?thesis
      by (subst unidiff_loop.simps) simp
  next
    case True
    show ?thesis
    proof (cases "next = [] \<or> i < line0 (hd next)")
      case ctx: True
      from "1.IH"(1) [OF True ctx loop_invariant_context [OF "1.prems" True ctx]] True ctx
      show ?thesis by (subst unidiff_loop.simps) simp
    next
      case chg: False
      from loop_invariant_change [OF "1.prems" chg]
      have d: "\<not> deleted (hd next) < 0" and n: "\<not> inserted (hd next) < 0"
        and inv: "loop_invariant last0 last1 (tl next)
                    (i + deleted (hd next)) (j + inserted (hd next))"
        by (simp, simp, blast)
      obtain i1 out1 where d1:
        "unidiff_changed_lines False ext cfg files (nat (deleted (hd next))) i out = (i1, out1)"
        by (cases "unidiff_changed_lines False ext cfg files (nat (deleted (hd next))) i out")
      obtain j1 out2 where n1:
        "unidiff_changed_lines True ext cfg files (nat (inserted (hd next))) j out1 = (j1, out2)"
        by (cases "unidiff_changed_lines True ext cfg files (nat (inserted (hd next))) j out1")
      have "i1 = i + int (nat (deleted (hd next)))"
        using changed_lines_cursor [of False ext cfg files "nat (deleted (hd next))" i out]
        by (simp only: d1 fst_conv)
      with d have i1: "i1 = i + deleted (hd next)" by simp
      have "j1 = j + int (nat (inserted (hd next)))"
        using changed_lines_cursor [of True ext cfg files "nat (inserted (hd next))" j out1]
        by (simp only: n1 fst_conv)
      with n have j1: "j1 = j + inserted (hd next)" by simp
      from inv have "loop_invariant last0 last1 (tl next) i1 j1" by (simp only: i1 j1)
      from "1.IH"(2) [OF True chg d d1 [symmetric] n n1 [symmetric] this]
      have "\<exists>out'. unidiff_loop ext cfg files last0 last1 (tl next) i1 j1 out2
        = Inr (last0 + 1, last1 + 1, out')" .
      with True chg d n d1 n1 show ?thesis
        by (subst unidiff_loop.simps) simp
    qed
  qed
qed

text \<open>
  Claim C4, amended. Take a hunk whose changes all lie inside the window
  [first0, last0] x [first1, last1] and have equal gaps in the two files; whose changes
  have counts that are not negative and do not overlap; and whose window shows as many
  lines before the first change, and as many lines after the last change, in file 0 as
  in file 1. Then the loop of pr_unidiff_hunk, started at first0 and first1, ends, with
  the cursor \<open>i\<close> at last0 + 1 and the cursor \<open>j\<close> at last1 + 1.
\<close>

theorem unidiff_loop_cursors:
  assumes "hunk \<noteq> []"
    and "list_all (inside_window first0 last0 first1 last1) hunk"
    and "equal_gaps hunk"
    and "list_all counts_not_negative hunk"
    and "no_overlap hunk"
    and "equal_margins first0 last0 first1 last1 hunk"
  shows "\<exists>out'. unidiff_loop ext cfg files last0 last1 hunk first0 first1 out
           = Inr (last0 + 1, last1 + 1, out')"
proof -
  from assms(1,2) have "inside_window first0 last0 first1 last1 (hd hunk)"
    "inside_window first0 last0 first1 last1 (last hunk)"
    by (simp_all add: list_all_iff)
  with assms have "loop_invariant last0 last1 hunk first0 first1"
    by (simp add: loop_invariant_def inside_window_def equal_margins_def)
  then show ?thesis by (rule unidiff_loop_ends)
qed

theorem unidiff_loop_cursors_witness:
  "list_all (inside_window 0 4 0 3) [make_change 2 1 2 0 False]
   \<and> equal_margins 0 4 0 3 [make_change 2 1 2 0 False]
   \<and> (\<exists>out'. unidiff_loop (example_externals (example_file 5, example_file 4))
                (example_config 3) (example_file 5, example_file 4) 4 3
                [make_change 2 1 2 0 False] 0 0 [] = Inr (5, 4, out'))"
proof -
  let ?hunk = "[make_change 2 1 2 0 False]"
  have 1: "?hunk \<noteq> []" by simp
  have 2: "list_all (inside_window 0 4 0 3) ?hunk"
    by (simp add: inside_window_def make_change_def)
  have 3: "equal_gaps ?hunk" by (simp add: equal_gaps_def)
  have 4: "list_all counts_not_negative ?hunk"
    by (simp add: counts_not_negative_def make_change_def)
  have 5: "no_overlap ?hunk" by (simp add: no_overlap_def)
  have 6: "equal_margins 0 4 0 3 ?hunk" by (simp add: equal_margins_def make_change_def)
  from unidiff_loop_cursors [OF 1 2 3 4 5 6,
      of "example_externals (example_file 5, example_file 4)" "example_config 3"
         "(example_file 5, example_file 4)" "[]"]
  have "\<exists>out'. unidiff_loop (example_externals (example_file 5, example_file 4))
                (example_config 3) (example_file 5, example_file 4) 4 3 ?hunk 0 0 []
              = Inr (5, 4, out')"
    by simp
  with 2 6 show ?thesis by blast
qed

text \<open>
  As the claim was stated, with the changes inside the window and the gaps between
  changes equal, it fails when the window is longer after the last change in one file
  than in the other. For a file 0 of 4 lines, a file 1 of 10 lines, a context of 3 and
  one change that replaces line 2 by line 2, the window is [0, 3] x [0, 5]; the loop
  goes on printing context until \<open>j\<close> passes 5, and ends with both cursors at 6, not with
  \<open>i\<close> at 4.
\<close>

theorem unidiff_loop_cursors_counterexample:
  "analyze_hunk (example_externals (example_file 4, example_file 10))
     [make_change 2 1 2 1 False] = (CHANGED, 2, 2, 2, 2)
   \<and> include_context (example_config 3) (example_file 4, example_file 10) (2, 2, 2, 2)
       = (0, 3, 0, 5)
   \<and> list_all (inside_window 0 3 0 5) [make_change 2 1 2 1 False]
   \<and> equal_gaps [make_change 2 1 2 1 False]
   \<and> map_sum id (\<lambda>r. (fst r, fst (snd r)))
       (unidiff_loop (example_externals (example_file 4, example_file 10)) (example_config 3)
          (example_file 4, example_file 10) 3 5 [make_change 2 1 2 1 False] 0 0 [])
     = Inr (6, 6)
   \<and> (6 :: lin) \<noteq> 3 + 1"
proof -
  have "analyze_hunk (example_externals (example_file 4, example_file 10))
     [make_change 2 1 2 1 False] = (CHANGED, 2, 2, 2, 2)"
    by (simp add: example_externals_def analyze_hunk_of_spec_def ignorable_change_def
        make_change_def Let_def)
  moreover have "include_context (example_config 3) (example_file 4, example_file 10)
      (2, 2, 2, 2) = (0, 3, 0, 5)"
    by (simp add: include_context_def example_config_def example_file_def Let_def)
  moreover have "list_all (inside_window 0 3 0 5) [make_change 2 1 2 1 False]"
    by (simp add: inside_window_def make_change_def)
  moreover have "equal_gaps [make_change 2 1 2 1 False]"
    by (simp add: equal_gaps_def)
  moreover have "map_sum id (\<lambda>r. (fst r, fst (snd r)))
       (unidiff_loop (example_externals (example_file 4, example_file 10)) (example_config 3)
          (example_file 4, example_file 10) 3 5 [make_change 2 1 2 1 False] 0 0 [])
     = Inr (6, 6)"
    by (simp add: unidiff_loop.simps make_change_def Let_def)
  ultimately show ?thesis by simp
qed

text \<open>
  The first scenario of the spec, with the lines of the example file: a change that
  deletes line 2 of five, shown with its context.
\<close>

lemma unidiff_loop_example:
  "unidiff_loop (example_externals (example_file 5, example_file 4)) (example_config 3)
     (example_file 5, example_file 4) 4 3 [make_change 2 1 2 0 False] 0 0 []
   = Inr (5, 4, '' 0'' @ [newline] @ '' 1'' @ [newline] @ ''-f2'' @ [newline]
                @ '' 3'' @ [newline] @ '' 4'' @ [newline])"
  by (simp add: unidiff_loop.simps make_change_def Let_def unidiff_context_line_def
      example_externals_def example_config_def example_file_def starts_with_newline_def
      fmt_ld_def decimal.simps digit_char_def)

subsection \<open>The function header before a hunk\<close>











lemma scan_found:
  "find_function_scan search lb previous i = Some m \<Longrightarrow> previous \<le> m \<and> m < i"
proof (induction search lb previous i rule: find_function_scan.induct)
  case (1 search lb previous i)
  show ?case
  proof (cases "previous \<le> i - 1")
    case False
    with "1.prems" show ?thesis by (subst (asm) find_function_scan.simps) simp
  next
    case True
    let ?line = "lb (i - 1)"
    let ?len = "min ((int (length ?line) - 1) mod (SIZE_MAX + 1)) INT_MAX"
    show ?thesis
    proof (cases "0 \<le> search ?line ?len")
      case hit: True
      with True "1.prems" have "m = i - 1"
        by (subst (asm) find_function_scan.simps) (simp add: Let_def)
      with True show ?thesis by simp
    next
      case miss: False
      with True "1.prems" have "find_function_scan search lb previous (i - 1) = Some m"
        by (subst (asm) find_function_scan.simps) (simp add: Let_def)
      with "1.IH" [OF True refl refl refl miss] show ?thesis by simp
    qed
  qed
qed

lemma scan_nothing: "find_function_scan search lb i i = None"
  by (subst find_function_scan.simps) simp

text \<open>
  Claim C10. A call of find_function with a line number in the range of \<open>lin\<close> sets
  find_function_last_search to that number and leaves the stream alone;
  find_function_last_match becomes the line that the scan found and is unchanged when
  the scan found none (the result is then the earlier match, or null). A second call
  with the same arguments returns the same result and the same state, and its scan
  makes no turn: the loop condition fails at once.
\<close>

theorem find_function_cursors:
  assumes "linenum \<le> LIN_MAX"
  shows "find_function_last_search (snd (find_function ext lb linenum st)) = linenum
    \<and> outfile (snd (find_function ext lb linenum st)) = outfile st
    \<and> find_function_last_match (snd (find_function ext lb linenum st)) =
        (case find_function_scan (re_search ext) lb (find_function_last_search st) linenum of
           Some m \<Rightarrow> m
         | None \<Rightarrow> find_function_last_match st)
    \<and> find_function ext lb linenum (snd (find_function ext lb linenum st)) =
        find_function ext lb linenum st
    \<and> \<not> find_function_last_search (snd (find_function ext lb linenum st)) \<le> linenum - 1
    \<and> find_function_scan (re_search ext) lb
        (find_function_last_search (snd (find_function ext lb linenum st))) linenum = None"
proof (cases "find_function_scan (re_search ext) lb (find_function_last_search st) linenum")
  case None
  then show ?thesis
    by (simp add: find_function_def Let_def scan_nothing)
next
  case (Some m)
  with scan_found [OF Some] assms have "m \<noteq> LIN_MAX" by simp
  with Some show ?thesis
    by (simp add: find_function_def Let_def scan_nothing)
qed

theorem find_function_cursors_witness:
  "(5 :: lin) \<le> LIN_MAX
   \<and> find_function (example_externals (example_file 9, example_file 9))
       (linbuf (example_file 9)) 5 example_state
     = (Some (''f2'' @ [newline]),
        example_state\<lparr>find_function_last_search := 5, find_function_last_match := 2\<rparr>)
   \<and> find_function (example_externals (example_file 9, example_file 9))
       (linbuf (example_file 9)) 5
       (snd (find_function (example_externals (example_file 9, example_file 9))
               (linbuf (example_file 9)) 5 example_state))
     = find_function (example_externals (example_file 9, example_file 9))
         (linbuf (example_file 9)) 5 example_state"
proof -
  let ?ext = "example_externals (example_file 9, example_file 9)"
  let ?lb = "linbuf (example_file 9)"
  have l: "(5 :: lin) \<le> LIN_MAX" by (simp add: LIN_MAX_def)
  have f: "fmt_ld 2 = ''2''" "fmt_ld 3 = ''3''" "fmt_ld 4 = ''4''" by code_simp+
  have s: "find_function_scan (re_search ?ext) ?lb 0 5 = Some 2"
    by (simp add: find_function_scan.simps [of _ _ 0] example_externals_def example_file_def f
        Let_def)
  have r: "find_function ?ext ?lb 5 example_state
     = (Some (''f2'' @ [newline]),
        example_state\<lparr>find_function_last_search := 5, find_function_last_match := 2\<rparr>)"
    using s by (simp add: find_function_def Let_def example_state_def example_file_def f)
  from find_function_cursors [OF l, of ?ext ?lb example_state] l r show ?thesis by blast
qed

end
